theory Spec2Isabelle
  imports Complex_Main "HOL-Library.Multiset"
begin

section \<open>The equation solver of \<^verbatim>\<open>equation_solver.py\<close>\<close>

text \<open>
  The program reads one equation such as \<^verbatim>\<open>x+5-3+x=6+x-2\<close>, reduces each side to a pair
  (coefficient of \<^verbatim>\<open>x\<close>, constant) and answers \<^verbatim>\<open>x=<value>\<close>, \<^verbatim>\<open>No solution\<close> or
  \<^verbatim>\<open>Infinite solutions\<close>.

  Conventions of the embedding.
  \<^item> A Python \<^verbatim>\<open>str\<close> is a \<^typ>\<open>string\<close>; a \<^typ>\<open>char\<close> stands for the code point of the
    same number, so the strings covered are those over U+0000 .. U+00FF.
  \<^item> Python integers are unbounded: they are \<^typ>\<open>int\<close>. The interpreter's configurable
    limit on the number of digits converted between \<^verbatim>\<open>str\<close> and \<^verbatim>\<open>int\<close> is taken as switched
    off.
  \<^item> An exception is a value of \<open>error\<close>; a function that may raise returns
    \<open>error + 'a\<close>, with \<open>Inl\<close> for the exception.
\<close>

datatype error = ValueError | IndexError

subsection \<open>The built-ins \<^verbatim>\<open>int(str)\<close>, \<^verbatim>\<open>str(int)\<close> and \<^verbatim>\<open>str.split\<close>\<close>

text \<open>\<^verbatim>\<open>c in ['+', '-']\<close>\<close>

definition is_sign :: "char \<Rightarrow> bool" where
  "is_sign c = (c = CHR ''+'' \<or> c = CHR ''-'')"

definition is_digit :: "char \<Rightarrow> bool" where
  "is_digit c = (c \<in> set ''0123456789'')"

definition digit_val :: "char \<Rightarrow> nat" where
  "digit_val c = of_char c - 48"

text \<open>
  The characters \<^verbatim>\<open>int\<close> skips at both ends of its argument: tab, line feed, vertical tab,
  form feed, carriage return, space, and in the upper half U+0085 and U+00A0.
\<close>

definition int_space :: "char \<Rightarrow> bool" where
  "int_space c = (c \<in> {CHR 0x09, CHR 0x0A, CHR 0x0B, CHR 0x0C, CHR 0x0D, CHR 0x20,
                        CHR 0x85, CHR 0xA0})"

definition strip :: "string \<Rightarrow> string" where
  "strip s = rev (dropWhile int_space (rev (dropWhile int_space s)))"

text \<open>
  The digits of a literal after its first digit: each next character is a digit, or one
  underscore followed by a digit.
\<close>

fun int_digits :: "nat \<Rightarrow> string \<Rightarrow> nat option" where
  "int_digits acc [] = Some acc"
| "int_digits acc (c # cs) =
     (if is_digit c then int_digits (10 * acc + digit_val c) cs
      else if c = CHR ''_'' then
        (case cs of
           [] \<Rightarrow> None
         | d # ds \<Rightarrow> if is_digit d then int_digits (10 * acc + digit_val d) ds else None)
      else None)"

definition int_magnitude :: "string \<Rightarrow> nat option" where
  "int_magnitude s =
     (case s of
        [] \<Rightarrow> None
      | c # cs \<Rightarrow> if is_digit c then int_digits (digit_val c) cs else None)"

text \<open>
  \<^verbatim>\<open>int(s)\<close> in base ten: surrounding white space is dropped, one sign may come first, the
  rest must be a digit sequence; anything else raises \<^verbatim>\<open>ValueError\<close>.
\<close>

definition py_int :: "string \<Rightarrow> error + int" where
  "py_int s =
     (case strip s of
        [] \<Rightarrow> Inl ValueError
      | c # cs \<Rightarrow>
          if c = CHR ''-'' then
            (case int_magnitude cs of None \<Rightarrow> Inl ValueError | Some n \<Rightarrow> Inr (- int n))
          else if c = CHR ''+'' then
            (case int_magnitude cs of None \<Rightarrow> Inl ValueError | Some n \<Rightarrow> Inr (int n))
          else
            (case int_magnitude (c # cs) of None \<Rightarrow> Inl ValueError | Some n \<Rightarrow> Inr (int n)))"

text \<open>The decimal rendering of an integer, as the f-string \<^verbatim>\<open>f"x={x_value}"\<close> produces it.\<close>

definition digit_char :: "nat \<Rightarrow> char" where
  "digit_char d = ''0123456789'' ! d"

fun str_nat :: "nat \<Rightarrow> string" where
  "str_nat n = (if n < 10 then [digit_char n] else str_nat (n div 10) @ [digit_char (n mod 10)])"

declare str_nat.simps [simp del]

definition py_str :: "int \<Rightarrow> string" where
  "py_str i = (if i < 0 then CHR ''-'' # str_nat (nat (- i)) else str_nat (nat i))"

text \<open>
  \<^verbatim>\<open>s.split(sep)\<close> for a separator of one character: the pieces between the separators, one
  more than there are separators.
\<close>

fun split :: "char \<Rightarrow> string \<Rightarrow> string list" where
  "split sep [] = [[]]"
| "split sep (c # cs) =
     (if c = sep then [] # split sep cs
      else (case split sep cs of [] \<Rightarrow> [[c]] | p # ps \<Rightarrow> (c # p) # ps))"

subsection \<open>\<^verbatim>\<open>parse_expression\<close>\<close>

text \<open>\<^verbatim>\<open>expr.replace(' ', '')\<close>\<close>

definition remove_spaces :: "string \<Rightarrow> string" where
  "remove_spaces expr = filter (\<lambda>c. c \<noteq> CHR '' '') expr"

text \<open>
  The body of the outer loop after the term has been read (\<^verbatim>\<open># Process the term\<close>): the pair
  of accumulators \<^verbatim>\<open>(x_coeff, constant)\<close> is returned updated, or \<^verbatim>\<open>int\<close> raises.
\<close>

definition process_term :: "int \<Rightarrow> string \<Rightarrow> int \<times> int \<Rightarrow> error + int \<times> int" where
  "process_term sign trm acc =
     (case acc of (x_coeff, constant) \<Rightarrow>
        if CHR ''x'' \<in> set trm then
          (let coeff_str = filter (\<lambda>c. c \<noteq> CHR ''x'') trm in
           if coeff_str = [] \<or> coeff_str = ''+'' then Inr (x_coeff + sign * 1, constant)
           else if coeff_str = ''-'' then Inr (x_coeff + sign * (- 1), constant)
           else (case py_int coeff_str of
                   Inl e \<Rightarrow> Inl e
                 | Inr coeff \<Rightarrow> Inr (x_coeff + sign * coeff, constant)))
        else if trm \<noteq> [] then
          (case py_int trm of
             Inl e \<Rightarrow> Inl e
           | Inr v \<Rightarrow> Inr (x_coeff, constant + sign * v))
        else Inr (x_coeff, constant))"

text \<open>
  The loop \<^verbatim>\<open>while i < len(expr)\<close>, on the suffix of \<^verbatim>\<open>expr\<close> from index \<^verbatim>\<open>i\<close>: the character
  at \<^verbatim>\<open>i\<close> gives the sign, the inner loop collects the characters up to the next sign or
  the end, and the scan goes on from there.
\<close>

function scan_terms :: "string \<Rightarrow> int \<times> int \<Rightarrow> error + int \<times> int" where
  "scan_terms [] acc = Inr acc"
| "scan_terms (c # cs) acc =
     (let sign = (if c = CHR ''+'' then 1 else - 1);
          trm = takeWhile (\<lambda>d. \<not> is_sign d) cs;
          rest = dropWhile (\<lambda>d. \<not> is_sign d) cs
      in case process_term sign trm acc of
           Inl e \<Rightarrow> Inl e
         | Inr acc' \<Rightarrow> scan_terms rest acc')"
  by pat_completeness auto
termination
  by (relation "measure (\<lambda>(s, acc). length s)") (auto simp: less_Suc_eq_le length_dropWhile_le)

definition parse_expression :: "string \<Rightarrow> error + int \<times> int" where
  "parse_expression expr =
     (case remove_spaces expr of
        [] \<Rightarrow> Inl IndexError
      | c # cs \<Rightarrow>
          scan_terms (if \<not> is_sign c then CHR ''+'' # c # cs else c # cs) (0, 0))"

subsection \<open>\<^verbatim>\<open>solve_equation\<close>\<close>

text \<open>
  \<^verbatim>\<open>left, right = equation.split('=')\<close> raises \<^verbatim>\<open>ValueError\<close> unless there are exactly two
  pieces.
\<close>

definition solve_equation :: "string \<Rightarrow> error + string" where
  "solve_equation equation =
     (case split (CHR ''='') equation of
        [left, right] \<Rightarrow>
          (case parse_expression left of
             Inl e \<Rightarrow> Inl e
           | Inr (left_x_coeff, left_const) \<Rightarrow>
               (case parse_expression right of
                  Inl e \<Rightarrow> Inl e
                | Inr (right_x_coeff, right_const) \<Rightarrow>
                    (let x_coeff = left_x_coeff - right_x_coeff;
                         const_diff = right_const - left_const
                     in if x_coeff = 0 then
                          (if const_diff = 0 then Inr ''Infinite solutions''
                           else Inr ''No solution'')
                        else Inr (''x='' @ py_str (const_diff div x_coeff)))))
      | _ \<Rightarrow> Inl ValueError)"

subsection \<open>Notions the properties are stated with\<close>

text \<open>
  The value of a string of decimal digits, most significant digit first.
\<close>

definition decimal :: "string \<Rightarrow> nat" where
  "decimal ds = foldl (\<lambda>a c. 10 * a + digit_val c) 0 ds"

text \<open>
  The input constraints of the parser: once the spaces are removed, a side is not empty
  and is made of digits, the variable letter and the two signs. An equation is well formed
  when it has exactly one \<^verbatim>\<open>=\<close> and both sides meet the constraints. Nothing below needs
  the further constraint that two variable letters are never adjacent, so it is left out.
\<close>

definition side_char :: "char \<Rightarrow> bool" where
  "side_char c = (is_digit c \<or> c = CHR ''x'' \<or> is_sign c)"

definition well_formed_side :: "string \<Rightarrow> bool" where
  "well_formed_side s = (remove_spaces s \<noteq> [] \<and> list_all side_char (remove_spaces s))"

definition well_formed :: "string \<Rightarrow> bool" where
  "well_formed equation =
     (case split (CHR ''='') equation of
        [left, right] \<Rightarrow> well_formed_side left \<and> well_formed_side right
      | _ \<Rightarrow> False)"

text \<open>
  A term body is made of digits and the variable letter; \<open>term_value\<close> is what such a
  body adds to the two accumulators under the given sign.
\<close>

definition body_char :: "char \<Rightarrow> bool" where
  "body_char c = (is_digit c \<or> c = CHR ''x'')"

definition term_value :: "int \<Rightarrow> string \<Rightarrow> int \<times> int" where
  "term_value sign b =
     (if CHR ''x'' \<in> set b then
        (sign * (if filter (\<lambda>c. c \<noteq> CHR ''x'') b = [] then 1
                 else int (decimal (filter (\<lambda>c. c \<noteq> CHR ''x'') b))), 0)
      else (0, sign * int (decimal b)))"

text \<open>
  A side seen as a list of signed terms (sign character, body). \<open>signed\<close> writes every
  sign; \<open>written\<close> leaves out the \<^verbatim>\<open>+\<close> of the first term, as in \<^verbatim>\<open>x+5-3+x\<close>.
\<close>

definition term_ok :: "char \<times> string \<Rightarrow> bool" where
  "term_ok t = (is_sign (fst t) \<and> snd t \<noteq> [] \<and> list_all body_char (snd t))"

definition signed :: "(char \<times> string) list \<Rightarrow> string" where
  "signed ts = concat (map (\<lambda>t. fst t # snd t) ts)"

definition written :: "(char \<times> string) list \<Rightarrow> string" where
  "written ts = (case signed ts of [] \<Rightarrow> [] | c # cs \<Rightarrow> if c = CHR ''+'' then cs else c # cs)"

definition contribution :: "char \<times> string \<Rightarrow> int \<times> int" where
  "contribution t = term_value (if fst t = CHR ''+'' then 1 else - 1) (snd t)"

section \<open>Properties\<close>

subsection \<open>Splitting and space removal\<close>

lemma split_nonempty: "split sep s \<noteq> []"
  by (induction s) (auto split: list.splits)

lemma length_split: "length (split sep s) = Suc (count_list s sep)"
  by (induction s) (auto split: list.splits simp: split_nonempty)

text \<open>
  C3. An input with no \<^verbatim>\<open>=\<close> or with two or more is rejected: the unpacking of the pieces
  raises \<^verbatim>\<open>ValueError\<close> before anything is parsed, and no outcome is returned.
\<close>

theorem malformed_equation_rejected:
  assumes "count_list equation (CHR ''='') \<noteq> 1"
  shows "solve_equation equation = Inl ValueError"
proof -
  have "length (split (CHR ''='') equation) \<noteq> 2"
    using assms by (simp add: length_split)
  then show ?thesis
    by (auto simp: solve_equation_def split: list.splits)
qed

theorem malformed_equation_rejected_witness:
  "count_list ''2x+1'' (CHR ''='') \<noteq> 1 \<and> solve_equation ''2x+1'' = Inl ValueError
   \<and> count_list ''1=2=3'' (CHR ''='') \<noteq> 1 \<and> solve_equation ''1=2=3'' = Inl ValueError"
  using malformed_equation_rejected [of "''2x+1''"] malformed_equation_rejected [of "''1=2=3''"]
  by simp

text \<open>
  C9, as the code has it. Only the space character U+0020 is removed before the scan:
  parsing a side and parsing it with its spaces removed give the same result.
\<close>

theorem parse_expression_removes_spaces:
  "parse_expression s = parse_expression (filter (\<lambda>c. c \<noteq> CHR '' '') s)"
  by (simp add: parse_expression_def remove_spaces_def)

text \<open>
  C9 as stated fails for other white space. A tab after the variable stays in the term
  body, \<^verbatim>\<open>int\<close> is given a string of white space only and raises; without the tab the
  side parses to \<open>(1, 0)\<close>.
\<close>

theorem whitespace_counterexample:
  "parse_expression [CHR ''x'', CHR 0x09] = Inl ValueError \<and> parse_expression ''x'' = Inr (1, 0)"
  by code_simp

text \<open>
  C10. When the equation has one \<^verbatim>\<open>=\<close> and a side is empty once its spaces are removed,
  no outcome is returned: \<^verbatim>\<open>expr[0]\<close> raises \<^verbatim>\<open>IndexError\<close>, unless the left side is not
  empty and has already made \<^verbatim>\<open>int\<close> raise \<^verbatim>\<open>ValueError\<close>.
\<close>

theorem empty_side_raises:
  assumes "split (CHR ''='') equation = [left, right]"
      and "remove_spaces left = [] \<or> remove_spaces right = []"
  shows "solve_equation equation = Inl IndexError
         \<or> (parse_expression left = Inl ValueError \<and> solve_equation equation = Inl ValueError)"
proof (cases "remove_spaces left = []")
  case True
  then have "parse_expression left = Inl IndexError"
    by (simp add: parse_expression_def)
  with assms(1) show ?thesis
    by (simp add: solve_equation_def)
next
  case False
  with assms(2) have "parse_expression right = Inl IndexError"
    by (simp add: parse_expression_def)
  with assms(1) show ?thesis
    by (cases "parse_expression left"; cases "projl (parse_expression left)")
       (auto simp: solve_equation_def)
qed

theorem empty_side_raises_witness:
  "solve_equation ''=5'' = Inl IndexError \<and> solve_equation ''x='' = Inl IndexError
   \<and> solve_equation ''='' = Inl IndexError"
proof -
  have a: "split (CHR ''='') ''=5'' = ['''', ''5'']" by simp
  have b: "split (CHR ''='') ''x='' = [''x'', '''']" by simp
  have c: "split (CHR ''='') ''='' = ['''', '''']" by simp
  have px: "parse_expression ''x'' = Inr (1, 0)" by code_simp
  from empty_side_raises [OF a] empty_side_raises [OF b] empty_side_raises [OF c] px
  show ?thesis by (simp add: remove_spaces_def parse_expression_def)
qed

subsection \<open>The reference scenarios\<close>

text \<open>C5. The eight equations of the bundled test list give the expected answers.\<close>

theorem reference_scenarios:
  "solve_equation ''x+5-3+x=6+x-2'' = Inr ''x=2'' \<and>
   solve_equation ''x=x'' = Inr ''Infinite solutions'' \<and>
   solve_equation ''2x=x'' = Inr ''x=0'' \<and>
   solve_equation ''2x+3=x+1'' = Inr ''x=-2'' \<and>
   solve_equation ''x+1=x+2'' = Inr ''No solution'' \<and>
   solve_equation ''3x-2=3x-2'' = Inr ''Infinite solutions'' \<and>
   solve_equation ''x=5'' = Inr ''x=5'' \<and>
   solve_equation ''2x=8'' = Inr ''x=4''"
proof -
  have s1: "solve_equation ''x+5-3+x=6+x-2'' = Inr ''x=2''" by code_simp
  have s2: "solve_equation ''x=x'' = Inr ''Infinite solutions''" by code_simp
  have s3: "solve_equation ''2x=x'' = Inr ''x=0''" by code_simp
  have s4: "solve_equation ''2x+3=x+1'' = Inr ''x=-2''" by code_simp
  have s5: "solve_equation ''x+1=x+2'' = Inr ''No solution''" by code_simp
  have s6: "solve_equation ''3x-2=3x-2'' = Inr ''Infinite solutions''" by code_simp
  have s7: "solve_equation ''x=5'' = Inr ''x=5''" by code_simp
  have s8: "solve_equation ''2x=8'' = Inr ''x=4''" by code_simp
  from s1 s2 s3 s4 s5 s6 s7 s8 show ?thesis by blast
qed

subsection \<open>Decimal numerals\<close>

lemma is_digit_simps:
  assumes "is_digit c"
  shows "\<not> int_space c" "\<not> is_sign c" "c \<noteq> CHR ''x''" "c \<noteq> CHR '' ''" "c \<noteq> CHR ''_''"
        "c \<noteq> CHR ''+''" "c \<noteq> CHR ''-''" "c \<noteq> CHR ''=''"
  using assms by (auto simp: is_digit_def int_space_def is_sign_def)

lemma strip_id:
  assumes "s \<noteq> []" "\<not> int_space (hd s)" "\<not> int_space (last s)"
  shows "strip s = s"
proof -
  from assms have 1: "dropWhile int_space s = s"
    by (simp add: dropWhile_eq_self_iff)
  from assms have "dropWhile int_space (rev s) = rev s"
    by (simp add: dropWhile_eq_self_iff hd_rev)
  with 1 show ?thesis by (simp add: strip_def)
qed

lemma int_digits_all:
  "list_all is_digit ds \<Longrightarrow>
   int_digits acc ds = Some (foldl (\<lambda>a c. 10 * a + digit_val c) acc ds)"
  by (induction ds arbitrary: acc) auto

lemma int_magnitude_digits:
  assumes "ds \<noteq> []" "list_all is_digit ds"
  shows "int_magnitude ds = Some (decimal ds)"
  using assms by (cases ds) (simp_all add: int_magnitude_def int_digits_all decimal_def)

lemma py_int_digits:
  assumes "ds \<noteq> []" "list_all is_digit ds"
  shows "py_int ds = Inr (int (decimal ds))"
proof -
  from assms obtain c cs where ds: "ds = c # cs" and c: "is_digit c"
    by (cases ds) auto
  from assms have "is_digit (hd ds)" "is_digit (last ds)"
    by (auto simp: list_all_iff)
  with assms(1) have "strip ds = ds"
    by (intro strip_id) (auto dest: is_digit_simps(1))
  then have "strip (c # cs) = c # cs" by (simp add: ds)
  moreover have "int_magnitude (c # cs) = Some (decimal ds)"
    using int_magnitude_digits [OF assms] by (simp add: ds)
  ultimately show ?thesis
    using c by (simp add: py_int_def is_digit_simps ds)
qed

lemma digit_char_props:
  assumes "d < 10"
  shows "is_digit (digit_char d)" "digit_val (digit_char d) = d"
proof -
  from assms have "d \<in> {0, 1, 2, 3, 4, 5, 6, 7, 8, 9}" by auto
  then show "is_digit (digit_char d)" "digit_val (digit_char d) = d"
    by (auto simp: digit_char_def is_digit_def digit_val_def)
qed

lemma str_nat_digits: "str_nat n \<noteq> [] \<and> list_all is_digit (str_nat n)"
proof (induction n rule: str_nat.induct)
  case (1 n)
  show ?case
  proof (cases "n < 10")
    case True
    then show ?thesis by (subst (1 2) str_nat.simps) (simp add: digit_char_props)
  next
    case False
    with 1 show ?thesis
      by (subst (1 2) str_nat.simps) (simp add: digit_char_props)
  qed
qed

lemma decimal_snoc: "decimal (ds @ [c]) = 10 * decimal ds + digit_val c"
  by (simp add: decimal_def)

lemma decimal_str_nat: "decimal (str_nat n) = n"
proof (induction n rule: str_nat.induct)
  case (1 n)
  show ?case
  proof (cases "n < 10")
    case True
    then show ?thesis by (subst str_nat.simps) (simp add: decimal_def digit_char_props)
  next
    case False
    with 1 have "decimal (str_nat (n div 10)) = n div 10" by simp
    with False show ?thesis
      by (subst str_nat.simps) (simp add: decimal_snoc digit_char_props)
  qed
qed

lemma py_int_py_str: "py_int (py_str i) = Inr i"
proof (cases "i < 0")
  case False
  have "py_int (str_nat (nat i)) = Inr (int (decimal (str_nat (nat i))))"
    using str_nat_digits [of "nat i"] by (intro py_int_digits) blast+
  with False show ?thesis
    by (simp add: py_str_def decimal_str_nat)
next
  case True
  let ?ds = "str_nat (nat (- i))"
  have ds: "?ds \<noteq> []" "list_all is_digit ?ds"
    using str_nat_digits by blast+
  then have "is_digit (last ?ds)"
    by (simp add: list_all_iff)
  then have "\<not> int_space (last (CHR ''-'' # ?ds))"
    using ds(1) by (simp add: is_digit_simps(1))
  moreover have "\<not> int_space (hd (CHR ''-'' # ?ds))"
    by (simp add: int_space_def)
  ultimately have st: "strip (CHR ''-'' # ?ds) = CHR ''-'' # ?ds"
    by (intro strip_id) simp_all
  have mg: "int_magnitude ?ds = Some (nat (- i))"
    using int_magnitude_digits [OF ds] by (simp only: decimal_str_nat)
  have "py_int (CHR ''-'' # ?ds) = Inr (- int (nat (- i)))"
    unfolding py_int_def st by (simp add: mg)
  with True show ?thesis
    by (simp add: py_str_def)
qed

lemma py_str_inj:
  assumes "py_str a = py_str b"
  shows "a = b"
proof -
  have "Inr a = py_int (py_str a)" by (simp only: py_int_py_str)
  also have "\<dots> = py_int (py_str b)" by (simp only: assms)
  also have "\<dots> = Inr b" by (simp only: py_int_py_str)
  finally show ?thesis by simp
qed

subsection \<open>Sides that meet the input constraints\<close>

lemma body_char_filter:
  "list_all body_char b \<Longrightarrow> list_all is_digit (filter (\<lambda>c. c \<noteq> CHR ''x'') b)"
  by (induction b) (auto simp: body_char_def)

lemma digits_not_sign_strings:
  assumes "list_all is_digit ds"
  shows "ds \<noteq> ''+''" "ds \<noteq> ''-''"
  using assms by (auto simp: is_digit_def)

lemma process_term_body:
  assumes "list_all body_char b"
  shows "process_term sign b (a, k) = Inr (a + fst (term_value sign b), k + snd (term_value sign b))"
proof (cases "CHR ''x'' \<in> set b")
  case True
  let ?cs = "filter (\<lambda>c. c \<noteq> CHR ''x'') b"
  have d: "list_all is_digit ?cs" using assms by (rule body_char_filter)
  show ?thesis
  proof (cases "?cs = []")
    case True
    with \<open>CHR ''x'' \<in> set b\<close> show ?thesis
      by (simp add: process_term_def term_value_def)
  next
    case False
    with d have "py_int ?cs = Inr (int (decimal ?cs))" by (intro py_int_digits)
    with False digits_not_sign_strings [OF d] \<open>CHR ''x'' \<in> set b\<close> show ?thesis
      by (simp add: process_term_def term_value_def Let_def)
  qed
next
  case False
  then have d: "list_all is_digit b"
    using assms by (auto simp: list_all_iff body_char_def)
  show ?thesis
  proof (cases "b = []")
    case True
    then show ?thesis by (simp add: process_term_def term_value_def decimal_def)
  next
    case nonempty: False
    with d have "py_int b = Inr (int (decimal b))" by (intro py_int_digits)
    with nonempty False show ?thesis
      by (simp add: process_term_def term_value_def)
  qed
qed

lemma takeWhile_body:
  assumes "list_all side_char cs"
  shows "list_all body_char (takeWhile (\<lambda>d. \<not> is_sign d) cs)"
  using assms by (induction cs) (auto simp: side_char_def body_char_def)

lemma dropWhile_side:
  assumes "list_all side_char cs"
  shows "list_all side_char (dropWhile (\<lambda>d. \<not> is_sign d) cs)"
  using assms by (induction cs) auto

lemma list_all_tl: "list_all P xs \<Longrightarrow> list_all P (tl xs)"
  by (cases xs) simp_all

lemma scan_terms_returns:
  "list_all side_char (tl s) \<Longrightarrow> \<exists>r. scan_terms s acc = Inr r"
proof (induction s acc rule: scan_terms.induct)
  case (1 acc)
  show ?case by simp
next
  case (2 c cs acc)
  let ?sign = "if c = CHR ''+'' then 1 else - 1 :: int"
  let ?trm = "takeWhile (\<lambda>d. \<not> is_sign d) cs"
  let ?rest = "dropWhile (\<lambda>d. \<not> is_sign d) cs"
  from 2(2) have cs: "list_all side_char cs" by simp
  obtain a k where acc: "acc = (a, k)" by (cases acc)
  have pt: "process_term ?sign ?trm acc
            = Inr (a + fst (term_value ?sign ?trm), k + snd (term_value ?sign ?trm))"
    unfolding acc using takeWhile_body [OF cs] by (rule process_term_body)
  have "list_all side_char (tl ?rest)"
    using dropWhile_side [OF cs] by (rule list_all_tl)
  from 2(1) [OF refl refl refl pt this] obtain r where "scan_terms ?rest
      (a + fst (term_value ?sign ?trm), k + snd (term_value ?sign ?trm)) = Inr r" by blast
  with pt show ?case by (simp add: Let_def)
qed

lemma parse_expression_returns:
  assumes "well_formed_side s"
  shows "\<exists>c k. parse_expression s = Inr (c, k)"
proof -
  from assms obtain d ds where e: "remove_spaces s = d # ds" and ok: "list_all side_char (d # ds)"
    by (cases "remove_spaces s") (auto simp: well_formed_side_def)
  have "\<exists>r. scan_terms (if \<not> is_sign d then CHR ''+'' # d # ds else d # ds) (0, 0) = Inr r"
    using ok by (intro scan_terms_returns) auto
  then show ?thesis
    by (auto simp: parse_expression_def e)
qed

subsection \<open>The answer\<close>

lemma well_formed_sides:
  assumes "well_formed equation"
  obtains left right lc lk rc rk where
    "split (CHR ''='') equation = [left, right]"
    "parse_expression left = Inr (lc, lk)" "parse_expression right = Inr (rc, rk)"
proof -
  from assms obtain left right where sp: "split (CHR ''='') equation = [left, right]"
    and wf: "well_formed_side left" "well_formed_side right"
    by (auto simp: well_formed_def split: list.splits)
  from parse_expression_returns [OF wf(1)] parse_expression_returns [OF wf(2)] sp that
  show thesis by blast
qed

lemma solve_equation_sides:
  assumes "split (CHR ''='') equation = [left, right]"
    and "parse_expression left = Inr (lc, lk)" and "parse_expression right = Inr (rc, rk)"
  shows "solve_equation equation =
           (if lc - rc = 0 then (if rk - lk = 0 then Inr ''Infinite solutions'' else Inr ''No solution'')
            else Inr (''x='' @ py_str ((rk - lk) div (lc - rc))))"
  using assms by (simp add: solve_equation_def Let_def)

text \<open>
  C1. A well-formed equation has two sides that both parse, and the answer follows the
  rearranged form \<open>xCoeff * x = constDiff\<close>: \<^verbatim>\<open>Infinite solutions\<close> when both are zero,
  \<^verbatim>\<open>No solution\<close> when only \<open>xCoeff\<close> is zero, and otherwise \<^verbatim>\<open>x=\<close> followed by the floor of
  the quotient \<open>constDiff / xCoeff\<close>.
\<close>

theorem solve_equation_classifies:
  assumes "well_formed equation"
  shows "\<exists>left right leftCoeff leftConst rightCoeff rightConst.
           split (CHR ''='') equation = [left, right] \<and>
           parse_expression left = Inr (leftCoeff, leftConst) \<and>
           parse_expression right = Inr (rightCoeff, rightConst) \<and>
           solve_equation equation =
             (let xCoeff = leftCoeff - rightCoeff; constDiff = rightConst - leftConst
              in if xCoeff = 0 \<and> constDiff = 0 then Inr ''Infinite solutions''
                 else if xCoeff = 0 \<and> constDiff \<noteq> 0 then Inr ''No solution''
                 else Inr (''x='' @ py_str \<lfloor>real_of_int constDiff / real_of_int xCoeff\<rfloor>))"
proof -
  from assms obtain left right lc lk rc rk where
    h: "split (CHR ''='') equation = [left, right]"
       "parse_expression left = Inr (lc, lk)" "parse_expression right = Inr (rc, rk)"
    by (rule well_formed_sides)
  have "solve_equation equation =
          (let xCoeff = lc - rc; constDiff = rk - lk
           in if xCoeff = 0 \<and> constDiff = 0 then Inr ''Infinite solutions''
              else if xCoeff = 0 \<and> constDiff \<noteq> 0 then Inr ''No solution''
              else Inr (''x='' @ py_str \<lfloor>real_of_int constDiff / real_of_int xCoeff\<rfloor>))"
    unfolding solve_equation_sides [OF h] Let_def floor_divide_of_int_eq by simp
  with h show ?thesis by blast
qed

theorem solve_equation_classifies_witness:
  "well_formed ''-2x+1=x+9'' \<and> solve_equation ''-2x+1=x+9'' = Inr ''x=-3''"
proof -
  have wf: "well_formed ''-2x+1=x+9''"
    by (simp add: well_formed_def well_formed_side_def remove_spaces_def side_char_def
        is_digit_def is_sign_def)
  have l: "parse_expression ''-2x+1'' = Inr (- 2, 1)" by code_simp
  have r: "parse_expression ''x+9'' = Inr (1, 9)" by code_simp
  have f: "\<lfloor>real_of_int (9 - 1) / real_of_int (- 2 - 1)\<rfloor> = (- 3 :: int)"
    unfolding floor_divide_of_int_eq by simp
  have p: "py_str (- 3) = ''-3''" by code_simp
  from solve_equation_classifies [OF wf] l r f p
  have "solve_equation ''-2x+1=x+9'' = Inr ''x=-3''"
    by (auto simp: Let_def)
  with wf show ?thesis by blast
qed

text \<open>
  Every round of the scan consumes the sign character and the term body after it, so the
  suffix that is left is shorter; this is the measure of the termination proof of
  \<open>scan_terms\<close>.
\<close>

lemma scan_terms_progress:
  "length (dropWhile (\<lambda>d. \<not> is_sign d) cs) < length (c # cs)"
  by (simp add: less_Suc_eq_le length_dropWhile_le)

text \<open>
  C8. On a well-formed equation \<open>solve_equation\<close> returns, and what it returns is one of
  the three answers; the value of a unique solution is determined by the answer. Both
  scans end, \<open>scan_terms\<close> being a total function.
\<close>

theorem solve_equation_total:
  assumes "well_formed equation"
  shows "solve_equation equation = Inr ''Infinite solutions'' \<or>
         solve_equation equation = Inr ''No solution'' \<or>
         (\<exists>!x. solve_equation equation = Inr (''x='' @ py_str x))"
proof -
  from assms obtain left right lc lk rc rk where
    h: "split (CHR ''='') equation = [left, right]"
       "parse_expression left = Inr (lc, lk)" "parse_expression right = Inr (rc, rk)"
    by (rule well_formed_sides)
  show ?thesis
    unfolding solve_equation_sides [OF h] by (auto dest: py_str_inj)
qed

theorem solve_equation_total_witness:
  "well_formed ''3x-2=3x-2'' \<and> solve_equation ''3x-2=3x-2'' = Inr ''Infinite solutions'' \<and>
   well_formed ''x+1=x+2'' \<and> solve_equation ''x+1=x+2'' = Inr ''No solution'' \<and>
   well_formed ''2x=8'' \<and> (\<exists>!x. solve_equation ''2x=8'' = Inr (''x='' @ py_str x))"
proof -
  have wf: "well_formed ''3x-2=3x-2''" "well_formed ''x+1=x+2''" "well_formed ''2x=8''"
    by (simp_all add: well_formed_def well_formed_side_def remove_spaces_def side_char_def
        is_digit_def is_sign_def)
  have a: "solve_equation ''3x-2=3x-2'' = Inr ''Infinite solutions''" by code_simp
  have b: "solve_equation ''x+1=x+2'' = Inr ''No solution''" by code_simp
  have c: "solve_equation ''2x=8'' = Inr ''x=4''" by code_simp
  from solve_equation_total [OF wf(3)] c
  have "\<exists>!x. solve_equation ''2x=8'' = Inr (''x='' @ py_str x)" by simp
  with wf a b show ?thesis by blast
qed

lemma floor_div_contract:
  fixes k m :: int
  assumes "k \<noteq> 0"
  shows "(k dvd m \<longrightarrow> k * (m div k) = m) \<and>
         (\<not> k dvd m \<longrightarrow>
            (0 < k \<longrightarrow> k * (m div k) \<le> m \<and> m < k * (m div k) + \<bar>k\<bar>) \<and>
            (k < 0 \<longrightarrow> k * (m div k) - \<bar>k\<bar> < m \<and> m \<le> k * (m div k)))"
proof -
  define p where "p = k * (m div k)"
  define r where "r = m mod k"
  have eq: "m = p + r" by (simp add: p_def r_def)
  have pos: "0 < k \<Longrightarrow> 0 \<le> r \<and> r < k" by (simp add: r_def)
  have neg: "k < 0 \<Longrightarrow> k < r \<and> r \<le> 0" by (simp add: r_def)
  have dv: "k dvd m \<Longrightarrow> r = 0" by (simp add: r_def)
  have "(k dvd m \<longrightarrow> p = m) \<and>
        (\<not> k dvd m \<longrightarrow>
           (0 < k \<longrightarrow> p \<le> m \<and> m < p + \<bar>k\<bar>) \<and> (k < 0 \<longrightarrow> p - \<bar>k\<bar> < m \<and> m \<le> p))"
    using eq pos neg dv by (auto simp: abs_if)
  then show ?thesis by (simp only: p_def)
qed

text \<open>
  C2, as the code has it. When both sides parse and \<open>k = lc - rc\<close> is not zero, the answer
  is \<^verbatim>\<open>x=\<close> followed by one integer \<open>x\<close>, with \<open>k * x = m\<close> when \<open>k\<close> divides
  \<open>m = rk - lk\<close>; otherwise \<open>k * x \<le> m < k * x + \<bar>k\<bar>\<close> for positive \<open>k\<close>, and
  \<open>k * x - \<bar>k\<bar> < m \<le> k * x\<close> for negative \<open>k\<close>.
\<close>

theorem floor_division_contract:
  assumes "split (CHR ''='') equation = [left, right]"
    and "parse_expression left = Inr (lc, lk)" and "parse_expression right = Inr (rc, rk)"
    and "k = lc - rc" and "m = rk - lk" and "k \<noteq> 0"
  shows "\<exists>x. solve_equation equation = Inr (''x='' @ py_str x) \<and>
             (\<forall>y. solve_equation equation = Inr (''x='' @ py_str y) \<longrightarrow> y = x) \<and>
             (k dvd m \<longrightarrow> k * x = m) \<and>
             (\<not> k dvd m \<longrightarrow>
                (0 < k \<longrightarrow> k * x \<le> m \<and> m < k * x + \<bar>k\<bar>) \<and>
                (k < 0 \<longrightarrow> k * x - \<bar>k\<bar> < m \<and> m \<le> k * x))"
proof (intro exI [of _ "m div k"] conjI)
  show s: "solve_equation equation = Inr (''x='' @ py_str (m div k))"
    using assms(4-6) by (simp add: solve_equation_sides [OF assms(1-3)])
  show "\<forall>y. solve_equation equation = Inr (''x='' @ py_str y) \<longrightarrow> y = m div k"
    unfolding s by (auto dest: py_str_inj)
  show "k dvd m \<longrightarrow> k * (m div k) = m"
    using floor_div_contract [OF assms(6)] by blast
  show "\<not> k dvd m \<longrightarrow>
          (0 < k \<longrightarrow> k * (m div k) \<le> m \<and> m < k * (m div k) + \<bar>k\<bar>) \<and>
          (k < 0 \<longrightarrow> k * (m div k) - \<bar>k\<bar> < m \<and> m \<le> k * (m div k))"
    using floor_div_contract [OF assms(6)] by blast
qed

text \<open>
  C2 as stated fails for a negative coefficient: \<^verbatim>\<open>-2x=7\<close> reduces to \<open>-2 * x = 7\<close>, the
  answer is \<open>x = -4\<close>, and \<open>-2 * -4 = 8\<close> is above \<open>7\<close>.
\<close>

theorem floor_division_counterexample:
  "split (CHR ''='') ''-2x=7'' = [''-2x'', ''7''] \<and>
   parse_expression ''-2x'' = Inr (- 2, 0) \<and> parse_expression ''7'' = Inr (0, 7) \<and>
   solve_equation ''-2x=7'' = Inr (''x='' @ py_str (- 4)) \<and>
   \<not> (- 2 :: int) dvd 7 \<and>
   \<not> ((- 2) * (- 4) \<le> (7 :: int) \<and> (7 :: int) < (- 2) * (- 4) + \<bar>- 2\<bar>)"
proof -
  have a: "split (CHR ''='') ''-2x=7'' = [''-2x'', ''7'']" by simp
  have b: "parse_expression ''-2x'' = Inr (- 2, 0)" by code_simp
  have c: "parse_expression ''7'' = Inr (0, 7)" by code_simp
  have d: "solve_equation ''-2x=7'' = Inr (''x='' @ py_str (- 4))" by code_simp
  have e: "\<not> (- 2 :: int) dvd 7" by simp
  have f: "\<not> ((- 2) * (- 4) \<le> (7 :: int) \<and> (7 :: int) < (- 2) * (- 4) + \<bar>- 2\<bar>)" by simp
  from a b c d e f show ?thesis by blast
qed

theorem floor_division_contract_witness:
  "\<exists>x. solve_equation ''-2x=7'' = Inr (''x='' @ py_str x) \<and>
       (- 2) * x - \<bar>- 2\<bar> < 7 \<and> 7 \<le> (- 2) * x"
proof -
  have a: "split (CHR ''='') ''-2x=7'' = [''-2x'', ''7'']" by simp
  have b: "parse_expression ''-2x'' = Inr (- 2, 0)" by code_simp
  have c: "parse_expression ''7'' = Inr (0, 7)" by code_simp
  have k: "(- 2 :: int) = - 2 - 0" and m: "(7 :: int) = 7 - 0" and nz: "(- 2 :: int) \<noteq> 0"
    by simp_all
  have e: "\<not> (- 2 :: int) dvd 7" by simp
  from floor_division_contract [OF a b c k m nz] e show ?thesis
    by auto
qed

subsection \<open>Reordering the terms of a side\<close>

lemma body_char_simps:
  assumes "body_char c"
  shows "\<not> is_sign c" "c \<noteq> CHR '' ''"
  using assms by (auto simp: body_char_def is_sign_def is_digit_def)

lemma signed_Cons: "signed (t # ts) = fst t # snd t @ signed ts"
  by (simp add: signed_def)

lemma signed_head:
  assumes "list_all term_ok ts"
  shows "signed ts = [] \<or> is_sign (hd (signed ts))"
  using assms by (cases ts) (auto simp: signed_def term_ok_def)

lemma takeWhile_signed:
  assumes "list_all body_char b" "list_all term_ok ts"
  shows "takeWhile (\<lambda>d. \<not> is_sign d) (b @ signed ts) = b"
    and "dropWhile (\<lambda>d. \<not> is_sign d) (b @ signed ts) = signed ts"
proof -
  have b: "\<forall>c\<in>set b. \<not> is_sign c"
    using assms(1) by (auto simp: list_all_iff dest: body_char_simps(1))
  from signed_head [OF assms(2)]
  have t: "takeWhile (\<lambda>d. \<not> is_sign d) (signed ts) = []"
    and d: "dropWhile (\<lambda>d. \<not> is_sign d) (signed ts) = signed ts"
    by (cases "signed ts"; simp)+
  from b t show "takeWhile (\<lambda>d. \<not> is_sign d) (b @ signed ts) = b"
    by (simp add: takeWhile_append2)
  from b d show "dropWhile (\<lambda>d. \<not> is_sign d) (b @ signed ts) = signed ts"
    by (simp add: dropWhile_append2)
qed

lemma scan_terms_signed:
  assumes "list_all term_ok ts"
  shows "scan_terms (signed ts) (a, k) =
           Inr (a + sum_list (map (fst \<circ> contribution) ts),
                k + sum_list (map (snd \<circ> contribution) ts))"
  using assms
proof (induction ts arbitrary: a k)
  case Nil
  show ?case by (simp add: signed_def)
next
  case (Cons t ts)
  from Cons.prems have t: "term_ok t" and ts: "list_all term_ok ts"
    by simp_all
  from t have b: "list_all body_char (snd t)"
    by (simp add: term_ok_def)
  show ?case
    unfolding signed_Cons scan_terms.simps Let_def takeWhile_signed [OF b ts]
      process_term_body [OF b]
    by (simp add: Cons.IH [OF ts] contribution_def)
qed

lemma remove_spaces_signed:
  assumes "list_all term_ok ts"
  shows "remove_spaces (signed ts) = signed ts"
proof -
  have "\<forall>c\<in>set (signed ts). c \<noteq> CHR '' ''"
    using assms
    by (auto simp: signed_def list_all_iff term_ok_def is_sign_def dest: body_char_simps(2))
  then show ?thesis
    by (simp add: remove_spaces_def filter_id_conv)
qed

lemma parse_expression_scan:
  assumes "ts \<noteq> []" "list_all term_ok ts"
  shows "parse_expression (signed ts) = scan_terms (signed ts) (0, 0)"
proof -
  from assms obtain t ts' where ts: "ts = t # ts'" and s: "is_sign (fst t)"
    by (cases ts) (auto simp: term_ok_def)
  have "signed ts = fst t # snd t @ signed ts'"
    by (simp add: ts signed_Cons)
  with s show ?thesis
    unfolding parse_expression_def remove_spaces_signed [OF assms(2)]
    by (simp del: scan_terms.simps)
qed

lemma parse_expression_signed:
  assumes "ts \<noteq> []" "list_all term_ok ts"
  shows "parse_expression (signed ts) =
           Inr (sum_list (map (fst \<circ> contribution) ts), sum_list (map (snd \<circ> contribution) ts))"
  by (simp add: parse_expression_scan [OF assms] scan_terms_signed [OF assms(2)])

lemma parse_expression_written:
  assumes "ts \<noteq> []" "list_all term_ok ts"
  shows "parse_expression (written ts) = parse_expression (signed ts)"
proof -
  from assms obtain t ts' where ts: "ts = t # ts'" and t: "term_ok t" and ts': "list_all term_ok ts'"
    by (cases ts) auto
  show ?thesis
  proof (cases "fst t = CHR ''+''")
    case False
    then show ?thesis by (simp add: written_def ts signed_Cons)
  next
    case True
    from t obtain c cs where b: "snd t = c # cs" and c: "body_char c"
      by (cases "snd t") (auto simp: term_ok_def)
    have sg: "signed ts = CHR ''+'' # c # cs @ signed ts'"
      using True by (simp add: ts signed_Cons b)
    have w: "written ts = c # cs @ signed ts'"
      by (simp add: written_def sg)
    have "remove_spaces (signed ts) = signed ts"
      using assms(2) by (rule remove_spaces_signed)
    then have r: "remove_spaces (c # cs @ signed ts') = c # cs @ signed ts'"
      by (simp add: sg remove_spaces_def)
    have "parse_expression (written ts) = scan_terms (CHR ''+'' # c # cs @ signed ts') (0, 0)"
      unfolding w parse_expression_def r using body_char_simps(1) [OF c]
      by (simp del: scan_terms.simps)
    moreover have "parse_expression (signed ts) = scan_terms (CHR ''+'' # c # cs @ signed ts') (0, 0)"
      unfolding parse_expression_scan [OF assms] by (simp only: sg)
    ultimately show ?thesis by simp
  qed
qed

lemma sum_list_mset_cong:
  fixes f :: "'a \<Rightarrow> int"
  assumes "mset xs = mset ys"
  shows "sum_list (map f xs) = sum_list (map f ys)"
proof -
  have "sum_list (map f xs) = sum_mset (image_mset f (mset xs))"
    by (simp add: sum_mset_sum_list [symmetric])
  also have "\<dots> = sum_mset (image_mset f (mset ys))"
    by (simp only: assms)
  also have "\<dots> = sum_list (map f ys)"
    by (simp add: sum_mset_sum_list [symmetric])
  finally show ?thesis .
qed

lemma parse_expression_spaces: "parse_expression s = parse_expression (remove_spaces s)"
  by (simp add: parse_expression_def remove_spaces_def)

text \<open>
  C6. Take a side whose terms are well formed (a sign, and a non-empty body of digits and
  the variable letter), written with or without the leading \<^verbatim>\<open>+\<close> and with spaces
  anywhere, and any side written in the same way from a reordering of its terms. Both
  parse, and to the same pair: the sums of what the terms add to the coefficient and to
  the constant.
\<close>

theorem term_reordering_invariance:
  assumes "ts \<noteq> []" and "list_all term_ok ts" and "mset ts' = mset ts"
    and "remove_spaces s \<in> {written ts, signed ts}"
    and "remove_spaces s' \<in> {written ts', signed ts'}"
  shows "\<exists>coefficient constant.
           parse_expression s = Inr (coefficient, constant) \<and>
           parse_expression s' = Inr (coefficient, constant) \<and>
           coefficient = sum_list (map (fst \<circ> contribution) ts) \<and>
           constant = sum_list (map (snd \<circ> contribution) ts)"
proof -
  let ?r = "Inr (sum_list (map (fst \<circ> contribution) ts), sum_list (map (snd \<circ> contribution) ts))
            :: error + int \<times> int"
  from assms(1,3) have ne: "ts' \<noteq> []" by auto
  have "set ts' = set ts" using assms(3) by (rule mset_eq_setD)
  with assms(2) have ok: "list_all term_ok ts'" by (simp add: list_all_iff)
  have a: "parse_expression (signed ts) = ?r"
    by (rule parse_expression_signed [OF assms(1,2)])
  have "parse_expression (signed ts') =
          Inr (sum_list (map (fst \<circ> contribution) ts'), sum_list (map (snd \<circ> contribution) ts'))"
    by (rule parse_expression_signed [OF ne ok])
  then have b: "parse_expression (signed ts') = ?r"
    by (simp only: sum_list_mset_cong [OF assms(3)])
  have "parse_expression (remove_spaces s) = ?r"
    using assms(4) a parse_expression_written [OF assms(1,2)] by auto
  then have s: "parse_expression s = ?r"
    by (simp only: parse_expression_spaces [of s])
  have "parse_expression (remove_spaces s') = ?r"
    using assms(5) b parse_expression_written [OF ne ok] by auto
  then have s': "parse_expression s' = ?r"
    by (simp only: parse_expression_spaces [of s'])
  from s s' show ?thesis by blast
qed

theorem term_reordering_invariance_witness:
  "list_all term_ok [(CHR ''+'', ''x''), (CHR ''+'', ''5''), (CHR ''-'', ''3''), (CHR ''+'', ''x'')] \<and>
   parse_expression ''x+5-3+x'' = Inr (2, 2) \<and> parse_expression ''x+x+5-3'' = Inr (2, 2) \<and>
   parse_expression ''x + 5 - 3 + x'' = Inr (2, 2) \<and> parse_expression ''+x+x+5-3'' = Inr (2, 2)"
proof -
  let ?ts = "[(CHR ''+'', ''x''), (CHR ''+'', ''5''), (CHR ''-'', ''3''), (CHR ''+'', ''x'')]"
  let ?ts' = "[(CHR ''+'', ''x''), (CHR ''+'', ''x''), (CHR ''+'', ''5''), (CHR ''-'', ''3'')]"
  have ne: "?ts \<noteq> []" by simp
  have ok: "list_all term_ok ?ts"
    by (simp add: term_ok_def is_sign_def body_char_def is_digit_def)
  have p: "mset ?ts' = mset ?ts" by simp
  have w: "written ?ts = ''x+5-3+x''" "written ?ts' = ''x+x+5-3''" "signed ?ts' = ''+x+x+5-3''"
    by (simp_all add: written_def signed_def)
  have s1: "remove_spaces ''x+5-3+x'' \<in> {written ?ts, signed ?ts}"
    and s2: "remove_spaces ''x+x+5-3'' \<in> {written ?ts', signed ?ts'}"
    and s3: "remove_spaces ''x + 5 - 3 + x'' \<in> {written ?ts, signed ?ts}"
    and s4: "remove_spaces ''+x+x+5-3'' \<in> {written ?ts', signed ?ts'}"
    by (simp_all add: w remove_spaces_def)
  have c: "sum_list (map (fst \<circ> contribution) ?ts) = 2" by code_simp
  have k: "sum_list (map (snd \<circ> contribution) ?ts) = 2" by code_simp
  from term_reordering_invariance [OF ne ok p s1 s2] term_reordering_invariance [OF ne ok p s3 s4]
  have "parse_expression ''x+5-3+x'' = Inr (2, 2) \<and> parse_expression ''x+x+5-3'' = Inr (2, 2) \<and>
        parse_expression ''x + 5 - 3 + x'' = Inr (2, 2) \<and> parse_expression ''+x+x+5-3'' = Inr (2, 2)"
    unfolding c k by blast
  with ok show ?thesis by blast
qed

subsection \<open>Two signs in a row\<close>

lemma process_term_empty: "process_term sign [] acc = Inr acc"
  by (cases acc) (simp add: process_term_def)

lemma scan_terms_double_sign:
  assumes "is_sign c1" "is_sign c2"
  shows "scan_terms (a @ c1 # c2 # b) acc = scan_terms (a @ c2 # b) acc"
proof (induction a acc rule: scan_terms.induct)
  case (1 acc)
  have "takeWhile (\<lambda>d. \<not> is_sign d) (c2 # b) = []" "dropWhile (\<lambda>d. \<not> is_sign d) (c2 # b) = c2 # b"
    using assms(2) by simp_all
  then have "scan_terms (c1 # c2 # b) acc = scan_terms (c2 # b) acc"
    by (simp only: scan_terms.simps(2) [of c1] Let_def process_term_empty sum.case)
  then show ?case by simp
next
  case (2 c cs acc)
  let ?P = "\<lambda>d. \<not> is_sign d"
  let ?sign = "if c = CHR ''+'' then 1 else - 1 :: int"
  have t1: "takeWhile ?P (cs @ c1 # c2 # b) = takeWhile ?P cs"
    and t2: "takeWhile ?P (cs @ c2 # b) = takeWhile ?P cs"
    using assms by (simp_all add: takeWhile_tail)
  have d1: "dropWhile ?P (cs @ c1 # c2 # b) = dropWhile ?P cs @ c1 # c2 # b"
    and d2: "dropWhile ?P (cs @ c2 # b) = dropWhile ?P cs @ c2 # b"
    using assms by (simp_all add: dropWhile_append3)
  show ?case
  proof (cases "process_term ?sign (takeWhile ?P cs) acc")
    case (Inl e)
    then show ?thesis
      by (simp only: append_Cons scan_terms.simps(2) Let_def t1 t2 sum.case)
  next
    case (Inr acc')
    from 2 [OF refl refl refl Inr]
    have "scan_terms (dropWhile ?P cs @ c1 # c2 # b) acc' = scan_terms (dropWhile ?P cs @ c2 # b) acc'" .
    with Inr show ?thesis
      by (simp only: append_Cons scan_terms.simps(2) Let_def t1 t2 d1 d2 sum.case)
  qed
qed

text \<open>
  C4, as the code has it. Two signs with nothing between them raise nothing: the empty
  term body adds nothing to either accumulator, so the side parses exactly as it does
  with the first of the two signs left out.
\<close>

theorem empty_term_body_skipped:
  assumes "is_sign c1" and "is_sign c2"
  shows "parse_expression (a @ [c1, c2] @ b) = parse_expression (a @ [c2] @ b)"
proof -
  let ?a = "remove_spaces a" and ?b = "remove_spaces b"
  have ns: "c1 \<noteq> CHR '' ''" "c2 \<noteq> CHR '' ''"
    using assms by (auto simp: is_sign_def)
  then have r1: "remove_spaces (a @ [c1, c2] @ b) = ?a @ c1 # c2 # ?b"
    and r2: "remove_spaces (a @ [c2] @ b) = ?a @ c2 # ?b"
    by (simp_all add: remove_spaces_def)
  show ?thesis
  proof (cases ?a)
    case Nil
    have "scan_terms (c1 # c2 # ?b) (0, 0) = scan_terms (c2 # ?b) (0, 0)"
      using scan_terms_double_sign [OF assms, of "[]" ?b "(0, 0)"] by simp
    then show ?thesis
      unfolding parse_expression_def r1 r2 Nil using assms
      by (simp del: scan_terms.simps)
  next
    case (Cons d ds)
    have "scan_terms (d # ds @ c1 # c2 # ?b) (0, 0) = scan_terms (d # ds @ c2 # ?b) (0, 0)"
      using scan_terms_double_sign [OF assms, of "d # ds" ?b "(0, 0)"] by simp
    moreover
    have "scan_terms (CHR ''+'' # d # ds @ c1 # c2 # ?b) (0, 0)
          = scan_terms (CHR ''+'' # d # ds @ c2 # ?b) (0, 0)"
      using scan_terms_double_sign [OF assms, of "CHR ''+'' # d # ds" ?b "(0, 0)"] by simp
    ultimately show ?thesis
      unfolding parse_expression_def r1 r2 Cons
      by (simp del: scan_terms.simps)
  qed
qed

theorem empty_term_body_skipped_witness:
  "is_sign (CHR ''+'') \<and> parse_expression ''x++5'' = parse_expression ''x+5''
   \<and> parse_expression ''x+5'' = Inr (1, 5)"
proof -
  have s: "is_sign (CHR ''+'')" by (simp add: is_sign_def)
  have v: "parse_expression ''x+5'' = Inr (1, 5)" by code_simp
  from empty_term_body_skipped [OF s s, of "''x''" "''5''"] s v show ?thesis
    by simp
qed

text \<open>
  C4 as stated fails: \<^verbatim>\<open>x++5\<close> parses to \<open>(1, 5)\<close>, and \<^verbatim>\<open>x++5=0\<close> is answered like
  \<^verbatim>\<open>x+5=0\<close>.
\<close>

theorem consecutive_signs_counterexample:
  "parse_expression ''x++5'' = Inr (1, 5) \<and>
   solve_equation ''x++5=0'' = Inr ''x=-5'' \<and> solve_equation ''x+5=0'' = Inr ''x=-5''"
proof -
  have a: "parse_expression ''x++5'' = Inr (1, 5)" by code_simp
  have b: "solve_equation ''x++5=0'' = Inr ''x=-5''" by code_simp
  have c: "solve_equation ''x+5=0'' = Inr ''x=-5''" by code_simp
  from a b c show ?thesis by blast
qed

subsection \<open>The magnitude of a variable term\<close>

text \<open>
  C7, as the code has it. For a side that is one term body with the variable letter in it,
  the magnitude is \<^verbatim>\<open>int\<close> of the body with every occurrence of the letter removed, and
  \<open>1\<close> when nothing is left; the characters after the letter count as much as those
  before it.
\<close>

theorem variable_term_magnitude:
  assumes "CHR ''x'' \<in> set body"
    and "list_all (\<lambda>c. \<not> is_sign c \<and> c \<noteq> CHR '' '') body"
  shows "parse_expression body =
           (if filter (\<lambda>c. c \<noteq> CHR ''x'') body = [] then Inr (1, 0)
            else case py_int (filter (\<lambda>c. c \<noteq> CHR ''x'') body) of
                   Inl e \<Rightarrow> Inl e
                 | Inr magnitude \<Rightarrow> Inr (magnitude, 0))"
proof -
  let ?P = "\<lambda>d. \<not> is_sign d"
  let ?cs = "filter (\<lambda>c. c \<noteq> CHR ''x'') body"
  from assms(1) obtain c cs where b: "body = c # cs" by (cases body) auto
  have ns: "\<forall>d\<in>set body. \<not> is_sign d" and nsp: "\<forall>d\<in>set body. d \<noteq> CHR '' ''"
    using assms(2) by (simp_all add: list_all_iff)
  from nsp have r: "remove_spaces body = body"
    by (simp add: remove_spaces_def filter_id_conv)
  from ns have c: "\<not> is_sign c" by (simp add: b)
  from ns have tk: "takeWhile ?P body = body" and dr: "dropWhile ?P body = []"
    by simp_all
  have p: "parse_expression body = scan_terms (CHR ''+'' # body) (0, 0)"
    unfolding parse_expression_def r using c by (simp add: b del: scan_terms.simps)
  have s: "scan_terms (CHR ''+'' # body) (0, 0) =
        (case process_term 1 body (0, 0) of Inl e \<Rightarrow> Inl e | Inr acc' \<Rightarrow> Inr acc')"
    unfolding scan_terms.simps(2) Let_def tk dr
    by (simp split: sum.splits)
  have "CHR ''+'' \<notin> set ?cs" "CHR ''-'' \<notin> set ?cs"
    using ns by (auto simp: is_sign_def)
  then have "?cs \<noteq> ''+''" "?cs \<noteq> ''-''"
    by (metis list.set_intros(1))+
  then have "process_term 1 body (0, 0) =
        (if ?cs = [] then Inr (1, 0)
         else case py_int ?cs of Inl e \<Rightarrow> Inl e | Inr magnitude \<Rightarrow> Inr (magnitude, 0))"
    using assms(1) by (simp add: process_term_def Let_def split: sum.splits)
  then show ?thesis
    unfolding p s by (simp split: sum.splits)
qed

theorem variable_term_magnitude_witness:
  "CHR ''x'' \<in> set ''12x07'' \<and> parse_expression ''12x07'' = Inr (1207, 0)"
proof -
  have x: "CHR ''x'' \<in> set ''12x07''" by simp
  have ok: "list_all (\<lambda>c. \<not> is_sign c \<and> c \<noteq> CHR '' '') ''12x07''"
    by (simp add: is_sign_def)
  have v: "py_int ''1207'' = Inr 1207" by code_simp
  from variable_term_magnitude [OF x ok] v x show ?thesis by simp
qed

text \<open>
  C7 as stated fails: the body \<^verbatim>\<open>2x3\<close> has magnitude \<open>23\<close>, not \<open>2\<close>.
\<close>

theorem magnitude_prefix_counterexample:
  "parse_expression ''2x3'' = Inr (23, 0) \<and> parse_expression ''2x3'' \<noteq> Inr (2, 0)"
proof -
  have "parse_expression ''2x3'' = Inr (23, 0)" by code_simp
  then show ?thesis by simp
qed

end
